theory Spec2Isabelle
  imports Main "HOL-Library.Word" "HOL-Library.Sublist"
begin

section \<open>JavaScript values seen by the chat component\<close>

text \<open>
  A JavaScript string is a sequence of 16-bit code units. \<open>js\<close> writes an ASCII literal
  as such a sequence.
\<close>

type_synonym jsstring = "16 word list"

definition js :: "string \<Rightarrow> jsstring" where
  "js s = map of_char s"

definition NL :: "16 word" where
  \<comment> \<open>the code unit of \<open>'\n'\<close>\<close>
  "NL = 0x0A"

definition isWhiteSpace :: "16 word \<Rightarrow> bool" where
  \<comment> \<open>the code units \<open>String.prototype.trim\<close> strips: WhiteSpace and LineTerminator\<close>
  "isWhiteSpace c \<longleftrightarrow>
     c = 0x09 \<or> c = 0x0A \<or> c = 0x0B \<or> c = 0x0C \<or> c = 0x0D \<or> c = 0x20 \<or> c = 0xA0 \<or>
     c = 0x1680 \<or> (0x2000 \<le> c \<and> c \<le> 0x200A) \<or> c = 0x2028 \<or> c = 0x2029 \<or>
     c = 0x202F \<or> c = 0x205F \<or> c = 0x3000 \<or> c = 0xFEFF"

definition trim :: "jsstring \<Rightarrow> jsstring" where
  "trim s = rev (dropWhile isWhiteSpace (rev (dropWhile isWhiteSpace s)))"

fun indexOf :: "'a \<Rightarrow> 'a list \<Rightarrow> nat option" where
  \<comment> \<open>\<open>s.indexOf(c)\<close> for a one-unit \<open>c\<close>; \<open>None\<close> is the source's \<open>-1\<close>\<close>
  "indexOf c [] = None"
| "indexOf c (x # xs) =
     (if x = c then Some 0 else (case indexOf c xs of None \<Rightarrow> None | Some i \<Rightarrow> Some (Suc i)))"

text \<open>
  What \<open>JSON.parse\<close> can return, and \<open>undefined\<close>, which reading a missing property gives.
  A Number is carried as the text \<open>Number.prototype.toString\<close> prints for it: the program
  only ever converts a Number to a string or tests its truthiness.
\<close>

datatype jsval =
    JUndefined
  | JNull
  | JBool bool
  | JNum jsstring
  | JStr jsstring
  | JArr "jsval list"
  | JObj "(jsstring \<times> jsval) list"

datatype error =
    SyntaxError (message: jsstring)
  | TypeError (message: jsstring)

text \<open>
  The parts of the JavaScript engine the component calls and the repository does not
  contain: \<open>JSON.parse\<close> (\<open>Inl\<close> is the SyntaxError it throws) and the TypeError thrown
  when a property of \<open>null\<close> or \<open>undefined\<close> is read, whose message is engine specific.
\<close>

record engine =
  JSON_parse :: "jsstring \<Rightarrow> error + jsval"
  null_read :: "jsstring \<Rightarrow> error"

fun join_comma :: "jsstring list \<Rightarrow> jsstring" where
  "join_comma [] = []"
| "join_comma [s] = s"
| "join_comma (s # t # ss) = s @ js '','' @ join_comma (t # ss)"

fun to_string :: "jsval \<Rightarrow> jsstring" where
  \<comment> \<open>the string that \<open>'' + v\<close> yields\<close>
  "to_string JUndefined = js ''undefined''"
| "to_string JNull = js ''null''"
| "to_string (JBool b) = (if b then js ''true'' else js ''false'')"
| "to_string (JNum s) = s"
| "to_string (JStr s) = s"
| "to_string (JArr vs) =
     join_comma (map (\<lambda>v. if v = JUndefined \<or> v = JNull then [] else to_string v) vs)"
| "to_string (JObj kvs) = js ''[object Object]''"

fun truthy :: "jsval \<Rightarrow> bool" where
  "truthy JUndefined = False"
| "truthy JNull = False"
| "truthy (JBool b) = b"
| "truthy (JNum s) = (s \<noteq> js ''0'' \<and> s \<noteq> js ''NaN'')"
| "truthy (JStr s) = (s \<noteq> [])"
| "truthy (JArr vs) = True"
| "truthy (JObj kvs) = True"

fun property :: "engine \<Rightarrow> jsval \<Rightarrow> jsstring \<Rightarrow> error + jsval" where
  \<comment> \<open>\<open>v.key\<close> for the keys \<open>response\<close> and \<open>done\<close>, which no prototype defines\<close>
  "property E JUndefined key = Inl (null_read E key)"
| "property E JNull key = Inl (null_read E key)"
| "property E (JObj kvs) key = Inr (case map_of kvs key of None \<Rightarrow> JUndefined | Some v \<Rightarrow> v)"
| "property E v key = Inr JUndefined"

section \<open>streamGenerate\<close>

text \<open>The arguments of \<open>fetch\<close>; \<open>model\<close>, \<open>prompt\<close> and \<open>stream\<close> are the JSON body.\<close>

record request =
  url :: jsstring
  http_method :: jsstring
  content_type :: jsstring
  model :: jsstring
  prompt :: jsstring
  stream :: bool

text \<open>
  What the server does with the request. \<open>fetch\<close> rejects, or resolves with a response
  that has no body, or with a body whose reader yields the given chunks and then either
  reports the end of the stream or rejects (the connection dropped). A chunk is given as
  the text \<open>decoder.decode(value, {stream: true})\<close> returns for it.
\<close>

datatype ending = Closed | Dropped error

datatype response =
    Rejected error
  | NoBody
  | Body "jsstring list" ending

text \<open>
  Everything streamGenerate does to the outside, in the order it does it: the request,
  each \<open>reader.read()\<close>, each \<open>JSON.parse(line)\<close>, and each call on the observer.
\<close>

datatype effect =
    Fetch request
  | Read
  | Parse jsstring
  | Next jsval
  | Complete
  | Error error

datatype inner =
    More jsstring  \<comment> \<open>no newline left: the inner loop ends with this buffer\<close>
  | Finished       \<comment> \<open>\<open>observer.complete(); return\<close>\<close>
  | Threw error    \<comment> \<open>an exception left the loop\<close>

text \<open>
  The inner \<open>while\<close> loop: it takes the lines out of the buffer while there is a newline
  in it, and returns what it did and how it ended.
\<close>

function drain :: "engine \<Rightarrow> jsstring \<Rightarrow> effect list \<times> inner" where
  "drain E buffer =
     (case indexOf NL buffer of
        None \<Rightarrow> ([], More buffer)
      | Some idx \<Rightarrow>
          (let line = trim (take idx buffer);
               buffer' = drop (idx + 1) buffer
           in if line = [] then drain E buffer'
              else (case JSON_parse E line of
                      Inl err \<Rightarrow> ([Parse line], Threw err)
                    | Inr chunk \<Rightarrow>
                        (case property E chunk (js ''response'') of
                           Inl err \<Rightarrow> ([Parse line], Threw err)
                         | Inr fragment \<Rightarrow>
                             (case property E chunk (js ''done'') of
                                Inl err \<Rightarrow> ([Parse line, Next fragment], Threw err)
                              | Inr d \<Rightarrow>
                                  if truthy d then ([Parse line, Next fragment], Finished)
                                  else (let (effs, r) = drain E buffer'
                                        in (Parse line # Next fragment # effs, r)))))))"
  by pat_completeness auto
termination
proof -
  have less: "i < length xs" if "indexOf c xs = Some i" for c :: "16 word" and xs i
    using that by (induction xs arbitrary: i) (auto split: if_splits option.splits)
  show ?thesis
    by (relation "measure (\<lambda>(E, buffer). length buffer)") (auto dest: less)
qed

declare drain.simps [simp del]

text \<open>
  The outer loop, from the buffer left by the chunks read so far; the inner loop above is
  run on the buffer after each chunk is appended.
\<close>

fun read_loop :: "engine \<Rightarrow> jsstring \<Rightarrow> jsstring list \<Rightarrow> ending \<Rightarrow> effect list" where
  "read_loop E buffer [] Closed = [Read, Complete]"
| "read_loop E buffer [] (Dropped err) = [Read, Error err]"
| "read_loop E buffer (v # vs) fin =
     (case drain E (buffer @ v) of
        (effs, More buffer') \<Rightarrow> Read # effs @ read_loop E buffer' vs fin
      | (effs, Finished) \<Rightarrow> Read # effs @ [Complete]
      | (effs, Threw err) \<Rightarrow> Read # effs @ [Error err])"

definition generate_request :: "jsstring \<Rightarrow> jsstring \<Rightarrow> request" where
  "generate_request p m =
     \<lparr>url = js ''http://localhost:11434/api/generate'', http_method = js ''POST'',
      content_type = js ''application/json'', model = m, prompt = p, stream = True\<rparr>"

text \<open>
  One subscription to the Observable that \<open>streamGenerate(prompt, model)\<close> returns, against
  a server that answers with \<open>resp\<close>. The function given to \<open>new Observable\<close> calls \<open>fetch\<close>
  at once and registers no teardown; every exception of the \<open>then\<close> callback and every
  rejection ends in \<open>observer.error\<close>.
\<close>

definition streamGenerate :: "engine \<Rightarrow> jsstring \<Rightarrow> jsstring \<Rightarrow> response \<Rightarrow> effect list" where
  "streamGenerate E p m resp =
     Fetch (generate_request p m) #
     (case resp of
        Rejected err \<Rightarrow> [Error err]
      | NoBody \<Rightarrow> [Error (null_read E (js ''getReader''))]
      | Body vs fin \<Rightarrow> read_loop E [] vs fin)"

section \<open>The chat component\<close>

datatype sender = User | Bot

text \<open>
  What the \<open>text\<close> property of a message can hold at run time: nothing (the property is
  optional), a string, or the number NaN, which \<open>undefined + x\<close> gives for an \<open>x\<close> that does
  not convert to a string.
\<close>

datatype text_slot = NoText | Text jsstring | NaNText

record message =
  msg_from :: sender
  msg_text :: text_slot
  msg_loading :: "bool option"

text \<open>
  The component's fields, with the requests it has passed to \<open>fetch\<close> and, for each
  subscription it has made, the \<open>botIndex\<close> its handlers captured.
\<close>

record chat =
  messages :: "message list"
  isLoading :: bool
  fetched :: "request list"
  subscriptions :: "nat list"

fun stringish :: "jsval \<Rightarrow> bool" where
  \<comment> \<open>ToPrimitive gives a string\<close>
  "stringish (JStr s) = True"
| "stringish (JArr vs) = True"
| "stringish (JObj kvs) = True"
| "stringish v = False"

fun append_chunk :: "text_slot \<Rightarrow> jsval \<Rightarrow> text_slot" where
  \<comment> \<open>\<open>text += chunk\<close>\<close>
  "append_chunk (Text t) v = Text (t @ to_string v)"
| "append_chunk NoText v = (if stringish v then Text (js ''undefined'' @ to_string v) else NaNText)"
| "append_chunk NaNText v = (if stringish v then Text (js ''NaN'' @ to_string v) else NaNText)"

definition warning_sign :: jsstring where
  \<comment> \<open>the literal before \<open>err.message\<close>: U+26A0, U+FE0F and a space\<close>
  "warning_sign = [0x26A0, 0xFE0F, 0x20]"

definition on_next :: "nat \<Rightarrow> jsval \<Rightarrow> message list \<Rightarrow> message list" where
  \<comment> \<open>with no message at \<open>botIndex\<close> the handler throws before it writes anything\<close>
  "on_next botIndex chunk ms =
     (if botIndex < length ms
      then ms[botIndex := (ms ! botIndex)\<lparr>msg_text := append_chunk (msg_text (ms ! botIndex)) chunk\<rparr>]
      else ms)"

definition on_error :: "nat \<Rightarrow> error \<Rightarrow> message list \<Rightarrow> message list" where
  "on_error botIndex err ms =
     (if botIndex < length ms
      then ms[botIndex := (ms ! botIndex)\<lparr>msg_text := Text (warning_sign @ message err)\<rparr>]
      else ms)"

fun deliver :: "nat \<Rightarrow> effect \<Rightarrow> message list \<Rightarrow> message list" where
  \<comment> \<open>the subscriber given to \<open>subscribe\<close>: it has a \<open>next\<close> and an \<open>error\<close> handler only\<close>
  "deliver botIndex (Next chunk) ms = on_next botIndex chunk ms"
| "deliver botIndex (Error err) ms = on_error botIndex err ms"
| "deliver botIndex eff ms = ms"

fun feed :: "nat \<Rightarrow> effect list \<Rightarrow> message list \<Rightarrow> message list" where
  "feed botIndex [] ms = ms"
| "feed botIndex (eff # effs) ms = feed botIndex effs (deliver botIndex eff ms)"

text \<open>
  The synchronous part of sendMessage: the two pushes and the subscription, which sends
  the request of \<open>streamGenerate(text)\<close>, the model being the default \<open>gemma:2b\<close>. The
  stream's effects reach the log later, through \<open>feed\<close> at the subscription's \<open>botIndex\<close>.
\<close>

definition sendMessage :: "jsstring \<Rightarrow> chat \<Rightarrow> chat" where
  "sendMessage p st =
     (let text = trim p
      in if text = [] then st
         else (let ms1 = messages st @ [\<lparr>msg_from = User, msg_text = Text text, msg_loading = None\<rparr>];
                   ms2 = ms1 @ [\<lparr>msg_from = Bot, msg_text = Text [], msg_loading = None\<rparr>];
                   botIndex = length ms2 - 1
               in st\<lparr>messages := ms2,
                     fetched := fetched st @ [generate_request text (js ''gemma:2b'')],
                     subscriptions := subscriptions st @ [botIndex]\<rparr>))"

section \<open>Running the model on concrete streams\<close>

text \<open>
  To run the model, \<open>JSON.parse\<close> is given by the finite list of the lines it is asked
  about and the values it returns for them; it throws on every other line. The TypeError
  message is V8's.
\<close>

definition table_engine :: "(jsstring \<times> jsval) list \<Rightarrow> engine" where
  "table_engine tbl =
     \<lparr>JSON_parse = (\<lambda>line. case map_of tbl line of
                                None \<Rightarrow> Inl (SyntaxError (js ''Unexpected token''))
                              | Some v \<Rightarrow> Inr v),
      null_read = (\<lambda>key. TypeError (js ''Cannot read properties of null (reading '' @ key @ js '')''))\<rparr>"

text \<open>
  The three records of the joke scenario, as the lines the server sends and as the
  values \<open>JSON.parse\<close> returns for them.
\<close>

definition joke_lines :: "jsstring list" where
  "joke_lines =
     [js ''{\"response\":\"Why\",\"done\":false}'',
      js ''{\"response\":\" did...\",\"done\":false}'',
      js ''{\"response\":\" yet.\",\"done\":true}'']"

definition joke_engine :: engine where
  "joke_engine = table_engine
     [(js ''{\"response\":\"Why\",\"done\":false}'',
       JObj [(js ''response'', JStr (js ''Why'')), (js ''done'', JBool False)]),
      (js ''{\"response\":\" did...\",\"done\":false}'',
       JObj [(js ''response'', JStr (js '' did...'')), (js ''done'', JBool False)]),
      (js ''{\"response\":\" yet.\",\"done\":true}'',
       JObj [(js ''response'', JStr (js '' yet.'')), (js ''done'', JBool True)])]"

section \<open>Reading a run\<close>

fun fragments :: "effect list \<Rightarrow> jsval list" where
  \<comment> \<open>the values passed to \<open>observer.next\<close>, in order\<close>
  "fragments [] = []"
| "fragments (Next v # effs) = v # fragments effs"
| "fragments (eff # effs) = fragments effs"

definition without_reads :: "effect list \<Rightarrow> effect list" where
  "without_reads effs = filter (\<lambda>eff. eff \<noteq> Read) effs"

fun observed :: "effect list \<Rightarrow> effect list" where
  \<comment> \<open>the calls on the observer, in order\<close>
  "observed [] = []"
| "observed (Next v # effs) = Next v # observed effs"
| "observed (Complete # effs) = Complete # observed effs"
| "observed (Error err # effs) = Error err # observed effs"
| "observed (eff # effs) = observed effs"

definition closing :: "ending \<Rightarrow> effect" where
  \<comment> \<open>the observer call made when the reader has nothing more to give\<close>
  "closing fin = (case fin of Closed \<Rightarrow> Complete | Dropped err \<Rightarrow> Error err)"

definition empty_chat :: chat where
  "empty_chat = \<lparr>messages = [], isLoading = False, fetched = [], subscriptions = []\<rparr>"

section \<open>The reference the specification compares the decoder with\<close>

fun split_nl :: "jsstring \<Rightarrow> jsstring list" where
  \<comment> \<open>\<open>text.split('\n')\<close>: the pieces between newlines, the one after the last newline included\<close>
  "split_nl [] = [[]]"
| "split_nl (c # cs) =
     (if c = NL then [] # split_nl cs
      else (case split_nl cs of [] \<Rightarrow> [[c]] | l # ls \<Rightarrow> (c # l) # ls))"

definition complete_lines :: "jsstring \<Rightarrow> jsstring list" where
  \<comment> \<open>the pieces that a newline ends\<close>
  "complete_lines s = butlast (split_nl s)"

fun fragments_of_lines :: "engine \<Rightarrow> jsstring list \<Rightarrow> jsval list" where
  \<comment> \<open>each line in order: blank lines skipped, a record's fragment emitted, nothing after
      a line that does not parse or a record with \<open>done\<close>\<close>
  "fragments_of_lines E [] = []"
| "fragments_of_lines E (l # ls) =
     (if trim l = [] then fragments_of_lines E ls
      else (case JSON_parse E (trim l) of
              Inl err \<Rightarrow> []
            | Inr chunk \<Rightarrow>
                (case property E chunk (js ''response'') of
                   Inl err \<Rightarrow> []
                 | Inr fragment \<Rightarrow>
                     (case property E chunk (js ''done'') of
                        Inl err \<Rightarrow> [fragment]
                      | Inr d \<Rightarrow> if truthy d then [fragment]
                                 else fragment # fragments_of_lines E ls))))"

definition naive_fragments :: "engine \<Rightarrow> jsstring \<Rightarrow> jsval list" where
  "naive_fragments E s = fragments_of_lines E (split_nl s)"

text \<open>
  A well-formed record line: not blank, and parsed to an object whose \<open>response\<close> is a
  string and whose \<open>done\<close> is a boolean.
\<close>

definition record_of :: "engine \<Rightarrow> jsstring \<Rightarrow> (jsstring \<times> bool) option" where
  "record_of E l =
     (if trim l = [] then None
      else (case JSON_parse E (trim l) of
              Inr (JObj kvs) \<Rightarrow>
                (case (map_of kvs (js ''response''), map_of kvs (js ''done'')) of
                   (Some (JStr s), Some (JBool b)) \<Rightarrow> Some (s, b)
                 | _ \<Rightarrow> None)
            | _ \<Rightarrow> None))"

fun upto_done :: "(jsstring \<times> bool) list \<Rightarrow> (jsstring \<times> bool) list" where
  \<comment> \<open>the records up to and including the first one with \<open>done: true\<close>\<close>
  "upto_done [] = []"
| "upto_done ((s, b) # rs) = (if b then [(s, b)] else (s, b) # upto_done rs)"

section \<open>The inner loop, line by line\<close>

lemma indexOf_None: "indexOf c xs = None \<longleftrightarrow> c \<notin> set xs"
  by (induction xs) (auto split: option.splits)

lemma indexOf_append_notin: "c \<notin> set l \<Longrightarrow> indexOf c (l @ c # rest) = Some (length l)"
  by (induction l) auto

lemma drain_line:
  assumes "NL \<notin> set l"
  shows "drain E (l @ NL # rest) =
     (let line = trim l
      in if line = [] then drain E rest
         else (case JSON_parse E line of
                 Inl err \<Rightarrow> ([Parse line], Threw err)
               | Inr chunk \<Rightarrow>
                   (case property E chunk (js ''response'') of
                      Inl err \<Rightarrow> ([Parse line], Threw err)
                    | Inr fragment \<Rightarrow>
                        (case property E chunk (js ''done'') of
                           Inl err \<Rightarrow> ([Parse line, Next fragment], Threw err)
                         | Inr d \<Rightarrow>
                             if truthy d then ([Parse line, Next fragment], Finished)
                             else (Parse line # Next fragment # fst (drain E rest), snd (drain E rest))))))"
  using indexOf_append_notin [OF assms, of rest]
  by (subst drain.simps) (simp add: Let_def split: sum.splits prod.splits)

lemma drain_no_nl: "NL \<notin> set b \<Longrightarrow> drain E b = ([], More b)"
  by (subst drain.simps) (simp add: indexOf_None [THEN iffD2])

lemma drain_More_no_nl: "drain E b = (effs, More b') \<Longrightarrow> NL \<notin> set b'"
proof (induction E b arbitrary: effs rule: drain.induct)
  case (1 E buffer)
  show ?case
  proof (cases "indexOf NL buffer")
    case None
    with 1(3) show ?thesis by (subst (asm) drain.simps) (simp add: indexOf_None)
  next
    case (Some idx)
    with 1 show ?thesis
      apply (subst (asm) (3) drain.simps)
      apply (simp add: Let_def split: if_splits sum.splits prod.splits)
      done
  qed
qed


lemma drain_append:
  "drain E (a @ b) =
     (case drain E a of
        (effs, More rest) \<Rightarrow> (effs @ fst (drain E (rest @ b)), snd (drain E (rest @ b)))
      | (effs, Finished) \<Rightarrow> (effs, Finished)
      | (effs, Threw err) \<Rightarrow> (effs, Threw err))"
proof (induction "length a" arbitrary: a rule: less_induct)
  case less
  show ?case
  proof (cases "NL \<in> set a")
    case False
    then show ?thesis by (simp add: drain_no_nl)
  next
    case True
    then obtain l rest where a: "a = l @ NL # rest" "NL \<notin> set l"
      by (metis split_list_first)
    have IH: "drain E (rest @ b) =
      (case drain E rest of
        (effs, More rest') \<Rightarrow> (effs @ fst (drain E (rest' @ b)), snd (drain E (rest' @ b)))
      | (effs, Finished) \<Rightarrow> (effs, Finished)
      | (effs, Threw err) \<Rightarrow> (effs, Threw err))"
      using less [of rest] a by simp
    show ?thesis
      unfolding a(1) append_assoc append_Cons
      by (simp add: drain_line [OF a(2)] IH Let_def split: sum.splits prod.splits inner.splits)
  qed
qed

lemma drain_no_Read: "Read \<notin> set (fst (drain E b))"
proof (induction "length b" arbitrary: b rule: less_induct)
  case less
  show ?case
  proof (cases "NL \<in> set b")
    case False
    then show ?thesis by (simp add: drain_no_nl)
  next
    case True
    then obtain l rest where b: "b = l @ NL # rest" "NL \<notin> set l"
      by (metis split_list_first)
    have "Read \<notin> set (fst (drain E rest))"
      using less [of rest] b by simp
    then show ?thesis
      unfolding b(1)
      by (simp add: drain_line [OF b(2)] Let_def split: sum.splits prod.splits inner.splits)
  qed
qed

lemma without_reads_drain: "drain E b = (effs, r) \<Longrightarrow> without_reads effs = effs"
  using drain_no_Read [of E b] by (auto simp add: without_reads_def filter_id_conv)

lemma without_reads_Nil: "without_reads [] = []"
  by (simp add: without_reads_def)

lemma without_reads_Cons:
  "without_reads (eff # effs) = (if eff = Read then without_reads effs else eff # without_reads effs)"
  by (simp add: without_reads_def)

lemma without_reads_append: "without_reads (xs @ ys) = without_reads xs @ without_reads ys"
  by (simp add: without_reads_def)

lemma read_loop_without_reads:
  "NL \<notin> set buffer \<Longrightarrow>
   without_reads (read_loop E buffer vs fin) =
     (case drain E (buffer @ concat vs) of
        (effs, More rest) \<Rightarrow> effs @ [closing fin]
      | (effs, Finished) \<Rightarrow> effs @ [Complete]
      | (effs, Threw err) \<Rightarrow> effs @ [Error err])"
proof (induction vs arbitrary: buffer)
  case Nil
  then show ?case
    by (cases fin) (simp_all add: drain_no_nl without_reads_def closing_def)
next
  case (Cons v vs)
  obtain effs r where d: "drain E (buffer @ v) = (effs, r)"
    by (cases "drain E (buffer @ v)")
  have w: "without_reads effs = effs"
    using d by (rule without_reads_drain)
  show ?case
  proof (cases r)
    case (More rest)
    with d have "NL \<notin> set rest" by (auto dest: drain_More_no_nl)
    from Cons.IH [OF this] d More w show ?thesis
      using drain_append [of E "buffer @ v" "concat vs"]
      by (simp add: without_reads_append without_reads_Cons without_reads_Nil split: prod.splits inner.splits)
  next
    case Finished
    with d w show ?thesis
      using drain_append [of E "buffer @ v" "concat vs"]
      by (simp add: without_reads_append without_reads_Cons without_reads_Nil)
  next
    case (Threw err)
    with d w show ?thesis
      using drain_append [of E "buffer @ v" "concat vs"]
      by (simp add: without_reads_append without_reads_Cons without_reads_Nil)
  qed
qed

section \<open>The subscriber's handlers\<close>

lemma feed_append: "feed i (xs @ ys) ms = feed i ys (feed i xs ms)"
  by (induction xs arbitrary: ms) simp_all

lemma feed_fragments:
  "i < length ms \<Longrightarrow>
   feed i (map Next vs) ms = ms[i := (ms ! i)\<lparr>msg_text := foldl append_chunk (msg_text (ms ! i)) vs\<rparr>]"
proof (induction vs arbitrary: ms)
  case Nil
  then show ?case by simp
next
  case (Cons v vs)
  then show ?case by (simp add: on_next_def)
qed

text \<open>
  C10. The \<open>next\<close> handler changes nothing but the text of the message at \<open>botIndex\<close>:
  the number of messages is the same, every message at another index is the same in all
  its fields, and the message at \<open>botIndex\<close> keeps its \<open>from\<close> and \<open>loading\<close>.
\<close>

theorem on_next_frame:
  "length (on_next botIndex chunk ms) = length ms \<and>
   (\<forall>j. j \<noteq> botIndex \<longrightarrow> on_next botIndex chunk ms ! j = ms ! j) \<and>
   msg_from (on_next botIndex chunk ms ! botIndex) = msg_from (ms ! botIndex) \<and>
   msg_loading (on_next botIndex chunk ms ! botIndex) = msg_loading (ms ! botIndex)"
  by (simp add: on_next_def)

text \<open>
  C10, at a concrete log: a fragment delivered to index 1 leaves the user message at
  index 0 as it was and appends to the bot message.
\<close>

theorem on_next_frame_witness:
  "(0::nat) \<noteq> 1 \<and>
   on_next 1 (JStr (js ''Why''))
     [\<lparr>msg_from = User, msg_text = Text (js ''Tell me a joke.''), msg_loading = None\<rparr>,
      \<lparr>msg_from = Bot, msg_text = Text [], msg_loading = None\<rparr>] ! 0 =
     \<lparr>msg_from = User, msg_text = Text (js ''Tell me a joke.''), msg_loading = None\<rparr> \<and>
   on_next 1 (JStr (js ''Why''))
     [\<lparr>msg_from = User, msg_text = Text (js ''Tell me a joke.''), msg_loading = None\<rparr>,
      \<lparr>msg_from = Bot, msg_text = Text [], msg_loading = None\<rparr>] =
     [\<lparr>msg_from = User, msg_text = Text (js ''Tell me a joke.''), msg_loading = None\<rparr>,
      \<lparr>msg_from = Bot, msg_text = Text (js ''Why''), msg_loading = None\<rparr>]"
  using on_next_frame [of 1 "JStr (js ''Why'')"
     "[\<lparr>msg_from = User, msg_text = Text (js ''Tell me a joke.''), msg_loading = None\<rparr>,
      \<lparr>msg_from = Bot, msg_text = Text [], msg_loading = None\<rparr>]"]
  by (simp add: on_next_def)

section \<open>Submitting a prompt\<close>

text \<open>
  C8, as stated, fails for streamGenerate: called with a prompt of three spaces it
  sends the request and reads the response; no error is raised before the network is
  used.
\<close>

theorem blank_prompt_counterexample:
  "trim (js ''   '') = [] \<and>
   streamGenerate (table_engine []) (js ''   '') (js ''gemma:2b'') (Body [] Closed) =
     [Fetch (generate_request (js ''   '') (js ''gemma:2b'')), Read, Complete]"
  by (simp add: streamGenerate_def trim_def js_def isWhiteSpace_def)

text \<open>
  C8, amended. For a prompt that is empty after trimming, sendMessage returns at once:
  the log, the requests sent and the subscriptions are unchanged. streamGenerate does not
  look at its prompt: it starts with the request whatever the prompt is.
\<close>

theorem blank_prompt:
  "trim p = [] \<Longrightarrow>
   sendMessage p st = st \<and>
   (\<exists>effs. streamGenerate E p m resp = Fetch (generate_request p m) # effs)"
  by (simp add: sendMessage_def streamGenerate_def)

text \<open>C8, amended, at the prompt of three spaces.\<close>

theorem blank_prompt_witness:
  "trim (js ''   '') = [] \<and>
   sendMessage (js ''   '') empty_chat = empty_chat \<and>
   (\<exists>effs. streamGenerate (table_engine []) (js ''   '') (js ''gemma:2b'') (Rejected (TypeError (js ''Failed to fetch''))) =
      Fetch (generate_request (js ''   '') (js ''gemma:2b'')) # effs)"
proof -
  have blank: "trim (js ''   '') = []"
    by (simp add: trim_def js_def isWhiteSpace_def)
  from blank_prompt [OF blank] blank show ?thesis by simp
qed

text \<open>
  C2, as stated, fails: a second sendMessage made before the first stream has delivered
  anything is not rejected. The log grows from two to four messages and there are two
  subscriptions, for the bot messages at indices 1 and 3.
\<close>

theorem second_submission_counterexample:
  "messages (sendMessage (js ''second'') (sendMessage (js ''first'') empty_chat)) =
     [\<lparr>msg_from = User, msg_text = Text (js ''first''), msg_loading = None\<rparr>,
      \<lparr>msg_from = Bot, msg_text = Text [], msg_loading = None\<rparr>,
      \<lparr>msg_from = User, msg_text = Text (js ''second''), msg_loading = None\<rparr>,
      \<lparr>msg_from = Bot, msg_text = Text [], msg_loading = None\<rparr>] \<and>
   messages (sendMessage (js ''first'') empty_chat) =
     [\<lparr>msg_from = User, msg_text = Text (js ''first''), msg_loading = None\<rparr>,
      \<lparr>msg_from = Bot, msg_text = Text [], msg_loading = None\<rparr>] \<and>
   subscriptions (sendMessage (js ''second'') (sendMessage (js ''first'') empty_chat)) = [1, 3]"
  by (simp add: sendMessage_def empty_chat_def trim_def js_def isWhiteSpace_def Let_def)

text \<open>
  C2, amended. sendMessage has no guard against a submission that is still streaming:
  whatever the state, a prompt that is not blank appends one user message and one empty
  bot message after the existing messages, which stay as they are, sends its own request
  and subscribes with the index of its own bot message.
\<close>

theorem sendMessage_appends:
  "trim p \<noteq> [] \<Longrightarrow>
   messages (sendMessage p st) =
     messages st @ [\<lparr>msg_from = User, msg_text = Text (trim p), msg_loading = None\<rparr>,
                    \<lparr>msg_from = Bot, msg_text = Text [], msg_loading = None\<rparr>] \<and>
   fetched (sendMessage p st) = fetched st @ [generate_request (trim p) (js ''gemma:2b'')] \<and>
   subscriptions (sendMessage p st) = subscriptions st @ [length (messages st) + 1] \<and>
   isLoading (sendMessage p st) = isLoading st"
  by (simp add: sendMessage_def Let_def)

text \<open>C2, amended, for a second prompt submitted while the first is streaming.\<close>

theorem sendMessage_appends_witness:
  "trim (js ''second'') \<noteq> [] \<and>
   messages (sendMessage (js ''second'') (sendMessage (js ''first'') empty_chat)) =
     messages (sendMessage (js ''first'') empty_chat) @
       [\<lparr>msg_from = User, msg_text = Text (js ''second''), msg_loading = None\<rparr>,
        \<lparr>msg_from = Bot, msg_text = Text [], msg_loading = None\<rparr>] \<and>
   subscriptions (sendMessage (js ''second'') (sendMessage (js ''first'') empty_chat)) = [1, 3]"
proof -
  have t: "trim (js ''second'') = js ''second''"
    by (simp add: trim_def js_def isWhiteSpace_def)
  have n: "trim (js ''second'') \<noteq> []"
    by (simp add: trim_def js_def isWhiteSpace_def)
  have s: "subscriptions (sendMessage (js ''first'') empty_chat) = [1] \<and>
           length (messages (sendMessage (js ''first'') empty_chat)) = 2"
    by (simp add: sendMessage_def empty_chat_def trim_def js_def isWhiteSpace_def Let_def)
  from sendMessage_appends [OF n, of "sendMessage (js ''first'') empty_chat"] t n s
  show ?thesis by simp
qed

section \<open>An error after some fragments\<close>

text \<open>
  C3, as stated, fails: the server sends one record with the fragment \<open>Hel\<close> and the
  connection drops. The bot message ends as the warning sign followed by the error's
  message; \<open>Hel\<close> is not a prefix of it.
\<close>

theorem error_replaces_text_counterexample:
  "feed 1 (streamGenerate
             (table_engine [(js ''{\"response\":\"Hel\",\"done\":false}'',
                             JObj [(js ''response'', JStr (js ''Hel'')), (js ''done'', JBool False)])])
             (js ''Hi'') (js ''gemma:2b'')
             (Body [js ''{\"response\":\"Hel\",\"done\":false}'' @ [NL]]
                   (Dropped (TypeError (js ''network error'')))))
          (messages (sendMessage (js ''Hi'') empty_chat)) =
     [\<lparr>msg_from = User, msg_text = Text (js ''Hi''), msg_loading = None\<rparr>,
      \<lparr>msg_from = Bot, msg_text = Text (warning_sign @ js ''network error''), msg_loading = None\<rparr>] \<and>
   \<not> prefix (js ''Hel'') (warning_sign @ js ''network error'')"
  by code_simp

text \<open>
  C3, amended. After any fragments the bot message holds what \<open>+=\<close> made of them; the
  \<open>error\<close> handler then sets its text to the warning sign followed by the error's message,
  in place of what was streamed. No other message changes.
\<close>

theorem error_replaces_text:
  "botIndex < length ms \<Longrightarrow>
   feed botIndex (map Next vs) ms =
     ms[botIndex := (ms ! botIndex)\<lparr>msg_text := foldl append_chunk (msg_text (ms ! botIndex)) vs\<rparr>] \<and>
   feed botIndex (map Next vs @ [Error err]) ms =
     ms[botIndex := (ms ! botIndex)\<lparr>msg_text := Text (warning_sign @ message err)\<rparr>]"
  by (simp add: feed_append feed_fragments on_error_def)

text \<open>C3, amended, for two fragments followed by a network error.\<close>

theorem error_replaces_text_witness:
  "(1::nat) < length [\<lparr>msg_from = User, msg_text = Text (js ''Hi''), msg_loading = None\<rparr>,
                      \<lparr>msg_from = Bot, msg_text = Text [], msg_loading = None\<rparr>] \<and>
   feed 1 (map Next [JStr (js ''Hel''), JStr (js ''lo'')] @ [Error (TypeError (js ''network error''))])
     [\<lparr>msg_from = User, msg_text = Text (js ''Hi''), msg_loading = None\<rparr>,
      \<lparr>msg_from = Bot, msg_text = Text [], msg_loading = None\<rparr>] =
     [\<lparr>msg_from = User, msg_text = Text (js ''Hi''), msg_loading = None\<rparr>,
      \<lparr>msg_from = Bot, msg_text = Text (warning_sign @ js ''network error''), msg_loading = None\<rparr>]"
  using error_replaces_text [of 1
     "[\<lparr>msg_from = User, msg_text = Text (js ''Hi''), msg_loading = None\<rparr>,
       \<lparr>msg_from = Bot, msg_text = Text [], msg_loading = None\<rparr>]"
     "[JStr (js ''Hel''), JStr (js ''lo'')]" "TypeError (js ''network error'')"]
  by (simp add: on_next_def on_error_def)

section \<open>Lines that are not records\<close>

text \<open>
  C7, as stated, fails: the line \<open>{"done":"no"}\<close> has no \<open>response\<close> and a \<open>done\<close> that is
  not a boolean. It is not reported as an error: \<open>undefined\<close> is emitted as a fragment and
  the stream completes, \<open>"no"\<close> being truthy.
\<close>

theorem unvalidated_record_counterexample:
  "streamGenerate (table_engine [(js ''{\"done\":\"no\"}'', JObj [(js ''done'', JStr (js ''no''))])])
     (js ''Hi'') (js ''gemma:2b'') (Body [js ''{\"done\":\"no\"}'' @ [NL]] Closed) =
   [Fetch (generate_request (js ''Hi'') (js ''gemma:2b'')), Read,
    Parse (js ''{\"done\":\"no\"}''), Next JUndefined, Complete]"
  by code_simp

text \<open>
  C7, amended. A line is not validated beyond \<open>JSON.parse\<close>: when it parses to a value
  other than \<open>null\<close>, reading \<open>response\<close> and \<open>done\<close> succeeds, the value of \<open>response\<close>
  (\<open>undefined\<close> when missing, of whatever type) is emitted as a fragment, and the loop
  stops or goes on by the truthiness of \<open>done\<close>.
\<close>

theorem unvalidated_record:
  assumes "NL \<notin> set l" and "trim l \<noteq> []" and "JSON_parse E (trim l) = Inr chunk"
    and "chunk \<noteq> JNull" and "chunk \<noteq> JUndefined"
  shows "\<exists>fragment d.
           property E chunk (js ''response'') = Inr fragment \<and>
           property E chunk (js ''done'') = Inr d \<and>
           drain E (l @ NL # rest) =
             (if truthy d then ([Parse (trim l), Next fragment], Finished)
              else (Parse (trim l) # Next fragment # fst (drain E rest), snd (drain E rest)))"
proof -
  from assms(4,5) obtain fragment d
    where p: "property E chunk (js ''response'') = Inr fragment" "property E chunk (js ''done'') = Inr d"
    by (cases chunk) simp_all
  with assms(2,3) show ?thesis
    by (simp add: drain_line [OF assms(1)])
qed

text \<open>C7, amended, at the line \<open>{}\<close>, which parses to an object without properties.\<close>

theorem unvalidated_record_witness:
  "NL \<notin> set (js ''{}'') \<and> trim (js ''{}'') \<noteq> [] \<and>
   JSON_parse (table_engine [(js ''{}'', JObj [])]) (trim (js ''{}'')) = Inr (JObj []) \<and>
   drain (table_engine [(js ''{}'', JObj [])]) (js ''{}'' @ NL # []) =
     ([Parse (js ''{}''), Next JUndefined], More [])"
proof -
  let ?E = "table_engine [(js ''{}'', JObj [])]"
  have h1: "NL \<notin> set (js ''{}'')" by (simp add: js_def NL_def)
  have h2: "trim (js ''{}'') \<noteq> []" by (simp add: js_def trim_def isWhiteSpace_def)
  have h3: "JSON_parse ?E (trim (js ''{}'')) = Inr (JObj [])"
    by (simp add: js_def trim_def isWhiteSpace_def table_engine_def)
  have h4: "trim (js ''{}'') = js ''{}''"
    by (simp add: js_def trim_def isWhiteSpace_def)
  from unvalidated_record [OF h1 h2 h3, of "[]"] h1 h2 h3 h4
  show ?thesis by (simp add: drain_no_nl)
qed

section \<open>The decoder against the line-by-line reference\<close>

lemma split_nl_nonempty: "split_nl s \<noteq> []"
  by (induction s) (simp_all split: list.splits)

lemma split_nl_no_nl: "NL \<notin> set s \<Longrightarrow> split_nl s = [s]"
  by (induction s) auto

lemma split_nl_line: "NL \<notin> set l \<Longrightarrow> split_nl (l @ NL # rest) = l # split_nl rest"
  by (induction l) auto

lemma complete_lines_no_nl: "NL \<notin> set s \<Longrightarrow> complete_lines s = []"
  by (simp add: complete_lines_def split_nl_no_nl)

lemma complete_lines_line:
  "NL \<notin> set l \<Longrightarrow> complete_lines (l @ NL # rest) = l # complete_lines rest"
  by (simp add: complete_lines_def split_nl_line split_nl_nonempty)

lemma fragments_append: "fragments (xs @ ys) = fragments xs @ fragments ys"
  by (induction xs rule: fragments.induct) simp_all

lemma fragments_without_reads: "fragments (without_reads effs) = fragments effs"
  by (induction effs rule: fragments.induct) (simp_all add: without_reads_def)

lemma fragments_drain: "fragments (fst (drain E b)) = fragments_of_lines E (complete_lines b)"
proof (induction "length b" arbitrary: b rule: less_induct)
  case less
  show ?case
  proof (cases "NL \<in> set b")
    case False
    then show ?thesis by (simp add: drain_no_nl complete_lines_no_nl)
  next
    case True
    then obtain l rest where b: "b = l @ NL # rest" "NL \<notin> set l"
      by (metis split_list_first)
    have "fragments (fst (drain E rest)) = fragments_of_lines E (complete_lines rest)"
      using less [of rest] b by simp
    then show ?thesis
      unfolding b(1)
      by (simp add: drain_line [OF b(2)] complete_lines_line [OF b(2)] Let_def
               split: sum.splits)
  qed
qed

lemma fragments_read_loop:
  "NL \<notin> set buffer \<Longrightarrow>
   fragments (read_loop E buffer vs fin) = fragments (fst (drain E (buffer @ concat vs)))"
proof -
  assume "NL \<notin> set buffer"
  from read_loop_without_reads [OF this, of E vs fin]
  have "fragments (without_reads (read_loop E buffer vs fin)) =
        fragments (fst (drain E (buffer @ concat vs)))"
    by (cases fin) (auto simp add: fragments_append closing_def split: prod.splits inner.splits)
  then show ?thesis by (simp add: fragments_without_reads)
qed

text \<open>
  C9, as stated, fails: the reference that splits the whole text at newlines also
  processes the piece after the last newline. For a stream that is one record with no
  newline after it the decoder emits nothing, the reference emits the record's fragment.
\<close>

theorem chunk_boundaries_counterexample:
  "fragments (streamGenerate
               (table_engine [(js ''{\"response\":\"a\",\"done\":false}'',
                               JObj [(js ''response'', JStr (js ''a'')), (js ''done'', JBool False)])])
               (js ''Hi'') (js ''gemma:2b'')
               (Body [js ''{\"response\":\"a\",\"done\":false}''] Closed)) = [] \<and>
   naive_fragments
     (table_engine [(js ''{\"response\":\"a\",\"done\":false}'',
                     JObj [(js ''response'', JStr (js ''a'')), (js ''done'', JBool False)])])
     (concat [js ''{\"response\":\"a\",\"done\":false}'']) = [JStr (js ''a'')]"
  by code_simp

text \<open>
  C9, amended. Whatever the chunks are, the fragments emitted are those of processing,
  in order, the lines of the concatenated text that a newline ends; the text after the
  last newline is never parsed. So the fragments depend on the concatenation only: any
  chunking gives the fragments of the text sent as one chunk.
\<close>

theorem chunk_boundaries:
  "fragments (streamGenerate E p m (Body vs fin)) =
     fragments_of_lines E (complete_lines (concat vs)) \<and>
   fragments (streamGenerate E p m (Body vs fin)) =
     fragments (streamGenerate E p m (Body [concat vs] fin))"
proof -
  have "fragments (streamGenerate E p m (Body ws fin)) =
        fragments_of_lines E (complete_lines (concat ws))" for ws
    by (simp add: streamGenerate_def fragments_read_loop fragments_drain)
  from this [of vs] this [of "[concat vs]"] show ?thesis
    by (simp del: read_loop.simps)
qed

section \<open>Well-formed streams\<close>

lemma record_of_SomeD:
  assumes "record_of E l = Some (s, b)"
  shows "trim l \<noteq> [] \<and>
         (\<exists>chunk. JSON_parse E (trim l) = Inr chunk \<and>
            property E chunk (js ''response'') = Inr (JStr s) \<and>
            property E chunk (js ''done'') = Inr (JBool b))"
  using assms
  by (auto simp add: record_of_def split: if_splits sum.splits jsval.splits option.splits)

lemma fragments_of_record_lines:
  "\<forall>l\<in>set ls. NL \<notin> set l \<Longrightarrow> map (record_of E) ls = map Some rs \<Longrightarrow>
   fragments_of_lines E (complete_lines (concat (map (\<lambda>l. l @ [NL]) ls))) =
     map (\<lambda>(s, b). JStr s) (upto_done rs)"
proof (induction ls arbitrary: rs)
  case Nil
  then show ?case by (simp add: complete_lines_def)
next
  case (Cons l ls)
  from Cons.prems(2) obtain s b rs' where rs: "rs = (s, b) # rs'"
    and l: "record_of E l = Some (s, b)" and ls: "map (record_of E) ls = map Some rs'"
    by (cases rs) auto
  from Cons.prems(1) have nl: "NL \<notin> set l" and nls: "\<forall>l\<in>set ls. NL \<notin> set l"
    by simp_all
  from record_of_SomeD [OF l] obtain chunk where c: "trim l \<noteq> []"
    "JSON_parse E (trim l) = Inr chunk"
    "property E chunk (js ''response'') = Inr (JStr s)"
    "property E chunk (js ''done'') = Inr (JBool b)"
    by blast
  from Cons.IH [OF nls ls] c show ?case
    by (simp add: rs complete_lines_line [OF nl])
qed

lemma concat_to_string_JStr:
  "concat (map to_string (map (\<lambda>(s, b). JStr s) rs)) = concat (map fst rs)"
  by (induction rs) auto

text \<open>
  C1. Let the text sent be the lines \<open>ls\<close>, each followed by a newline and each a
  well-formed record, with \<open>rs\<close> the records' \<open>response\<close> and \<open>done\<close> values. However the
  text is cut into chunks and however the stream ends, the fragments emitted are the
  \<open>response\<close> strings of the records up to and including the first one with
  \<open>done: true\<close>, in order, and so is their concatenation.
\<close>

theorem well_formed_stream:
  assumes "concat vs = concat (map (\<lambda>l. l @ [NL]) ls)"
    and "\<forall>l\<in>set ls. NL \<notin> set l"
    and "map (record_of E) ls = map Some rs"
  shows "fragments (streamGenerate E p m (Body vs fin)) = map (\<lambda>(s, b). JStr s) (upto_done rs) \<and>
         concat (map to_string (fragments (streamGenerate E p m (Body vs fin)))) =
           concat (map fst (upto_done rs))"
proof -
  have "fragments (streamGenerate E p m (Body vs fin)) = map (\<lambda>(s, b). JStr s) (upto_done rs)"
    using fragments_of_record_lines [OF assms(2,3)]
    by (simp add: streamGenerate_def fragments_read_loop fragments_drain assms(1))
  then show ?thesis
    using concat_to_string_JStr [of "upto_done rs"] by simp
qed

text \<open>
  C1, for the joke scenario, with the second record cut in two by a chunk boundary: the
  concatenation of the fragments is \<open>Why did... yet.\<close>
\<close>

theorem well_formed_stream_witness:
  "concat [js ''{\"response\":\"Why\",\"done\":false}'' @ NL # js ''{\"response\":\" did'',
           js ''...\",\"done\":false}'' @ NL # js ''{\"response\":\" yet.\",\"done\":true}'' @ [NL]] =
     concat (map (\<lambda>l. l @ [NL]) joke_lines) \<and>
   list_all (\<lambda>l. NL \<notin> set l) joke_lines \<and>
   map (record_of joke_engine) joke_lines =
     map Some [(js ''Why'', False), (js '' did...'', False), (js '' yet.'', True)] \<and>
   concat (map to_string (fragments (streamGenerate joke_engine (js ''Tell me a joke.'') (js ''gemma:2b'')
     (Body [js ''{\"response\":\"Why\",\"done\":false}'' @ NL # js ''{\"response\":\" did'',
            js ''...\",\"done\":false}'' @ NL # js ''{\"response\":\" yet.\",\"done\":true}'' @ [NL]]
           Closed)))) =
     js ''Why did... yet.''"
proof -
  let ?vs = "[js ''{\"response\":\"Why\",\"done\":false}'' @ NL # js ''{\"response\":\" did'',
           js ''...\",\"done\":false}'' @ NL # js ''{\"response\":\" yet.\",\"done\":true}'' @ [NL]]"
  have h1: "concat ?vs = concat (map (\<lambda>l. l @ [NL]) joke_lines)"
    by (simp add: joke_lines_def js_def)
  have h2: "\<forall>l\<in>set joke_lines. NL \<notin> set l"
    by (simp add: joke_lines_def js_def NL_def)
  have h3: "map (record_of joke_engine) joke_lines =
     map Some [(js ''Why'', False), (js '' did...'', False), (js '' yet.'', True)]"
    by code_simp
  have h2': "list_all (\<lambda>l. NL \<notin> set l) joke_lines"
    by (simp add: joke_lines_def js_def NL_def)
  from well_formed_stream [OF h1 h2 h3, of "js ''Tell me a joke.''" "js ''gemma:2b''" Closed] h1 h2' h3
  show ?thesis by (simp add: js_def)
qed

section \<open>Where a run stops\<close>

lemma drain_stop_nonempty:
  "drain E b = (effs, r) \<Longrightarrow> r = Finished \<or> r = Threw err \<Longrightarrow> effs \<noteq> []"
proof (induction "length b" arbitrary: b effs rule: less_induct)
  case less
  show ?case
  proof (cases "NL \<in> set b")
    case False
    with less.prems show ?thesis by (auto simp add: drain_no_nl)
  next
    case True
    then obtain l rest where b: "b = l @ NL # rest" "NL \<notin> set l"
      by (metis split_list_first)
    have IH: "drain E rest = (effs', r) \<Longrightarrow> effs' \<noteq> []" for effs'
      using less.hyps [of rest effs'] less.prems(2) b by simp
    from less.prems(1) IH show ?thesis
      unfolding b(1)
      by (auto simp add: drain_line [OF b(2)] Let_def split: sum.splits if_splits)
  qed
qed

lemma read_loop_stop:
  assumes "NL \<notin> set buffer"
    and "drain E (buffer @ concat vs) = (effs, r)"
    and "r = Finished \<and> stop = Complete \<or> r = Threw err \<and> stop = Error err"
  shows "\<exists>T. read_loop E buffer vs fin = T @ [last effs, stop]"
  using assms
proof (induction vs arbitrary: buffer effs)
  case Nil
  then show ?case by (auto simp add: drain_no_nl)
next
  case (Cons v vs)
  obtain e1 r1 where d: "drain E (buffer @ v) = (e1, r1)"
    by (cases "drain E (buffer @ v)")
  show ?case
  proof (cases r1)
    case (More rest)
    with d have rest: "NL \<notin> set rest" by (auto dest: drain_More_no_nl)
    obtain e2 r2 where d2: "drain E (rest @ concat vs) = (e2, r2)"
      by (cases "drain E (rest @ concat vs)")
    from drain_append [of E "buffer @ v" "concat vs"] d More d2 Cons.prems(2)
    have eq: "effs = e1 @ e2" "r = r2" by simp_all
    from Cons.prems(3) eq d2 have ne: "e2 \<noteq> []"
      by (auto dest: drain_stop_nonempty)
    from Cons.IH [OF rest] d2 eq Cons.prems(3)
    obtain T where "read_loop E rest vs fin = T @ [last e2, stop]" by blast
    with d More eq ne have "read_loop E buffer (v # vs) fin = (Read # e1 @ T) @ [last effs, stop]"
      by simp
    then show ?thesis by blast
  next
    case Finished
    from drain_append [of E "buffer @ v" "concat vs"] d Finished Cons.prems(2)
    have eq: "effs = e1" "r = Finished" by simp_all
    from d Finished have ne: "e1 \<noteq> []" by (auto dest: drain_stop_nonempty)
    from eq Cons.prems(3) have "stop = Complete" by simp
    with d Finished eq ne
    have "read_loop E buffer (v # vs) fin = (Read # butlast e1) @ [last effs, stop]"
      by simp
    then show ?thesis by blast
  next
    case (Threw err')
    from drain_append [of E "buffer @ v" "concat vs"] d Threw Cons.prems(2)
    have eq: "effs = e1" "r = Threw err'" by simp_all
    from d Threw have ne: "e1 \<noteq> []" by (auto dest: drain_stop_nonempty)
    from eq Cons.prems(3) have "stop = Error err'" by simp
    with d Threw eq ne
    have "read_loop E buffer (v # vs) fin = (Read # butlast e1) @ [last effs, stop]"
      by simp
    then show ?thesis by blast
  qed
qed

lemma stream_stop:
  assumes "drain E (concat vs) = (effs, r)"
    and "r = Finished \<and> stop = Complete \<or> r = Threw err \<and> stop = Error err"
  shows "\<exists>T. streamGenerate E p m (Body vs fin) = T @ [last effs, stop] \<and>
             without_reads T = Fetch (generate_request p m) # butlast effs"
proof -
  from read_loop_stop [of "[]" E vs effs r stop err fin] assms
  obtain T where T: "read_loop E [] vs fin = T @ [last effs, stop]"
    by auto
  from assms have ne: "effs \<noteq> []"
    by (auto dest: drain_stop_nonempty)
  from drain_no_Read [of E "concat vs"] assms(1) ne have nr: "last effs \<noteq> Read"
    by (metis fst_conv last_in_set)
  from read_loop_without_reads [of "[]" E vs fin] assms
  have "without_reads (read_loop E [] vs fin) = effs @ [stop]"
    by auto
  with T nr assms(2) have "without_reads T @ [last effs] = effs"
    by (auto simp add: without_reads_append without_reads_Cons without_reads_Nil)
  then have "without_reads T @ [last effs] = butlast effs @ [last effs]"
    using ne by simp
  then have "without_reads T = butlast effs" by simp
  with T show ?thesis
    by (simp add: streamGenerate_def without_reads_Cons)
qed

lemma drain_effects_kind:
  "eff \<in> set (fst (drain E b)) \<Longrightarrow> (\<exists>l. eff = Parse l) \<or> (\<exists>v. eff = Next v)"
proof (induction "length b" arbitrary: b rule: less_induct)
  case less
  show ?case
  proof (cases "NL \<in> set b")
    case False
    with less.prems show ?thesis by (simp add: drain_no_nl)
  next
    case True
    then obtain l rest where b: "b = l @ NL # rest" "NL \<notin> set l"
      by (metis split_list_first)
    have IH: "eff \<in> set (fst (drain E rest)) \<Longrightarrow> (\<exists>l. eff = Parse l) \<or> (\<exists>v. eff = Next v)"
      using less.hyps [of rest] b by simp
    from less.prems IH show ?thesis
      unfolding b(1)
      by (auto simp add: drain_line [OF b(2)] Let_def split: sum.splits if_splits)
  qed
qed

lemma observed_parse_next:
  "\<forall>eff\<in>set effs. (\<exists>l. eff = Parse l) \<or> (\<exists>v. eff = Next v) \<Longrightarrow>
   observed effs = map Next (fragments effs)"
  by (induction effs rule: observed.induct) auto

lemma observed_drain: "drain E b = (effs, r) \<Longrightarrow> observed effs = map Next (fragments effs)"
  using drain_effects_kind [of _ E b] by (intro observed_parse_next) auto

lemma observed_append: "observed (xs @ ys) = observed xs @ observed ys"
  by (induction xs rule: observed.induct) simp_all

lemma observed_without_reads: "observed (without_reads effs) = observed effs"
  by (induction effs rule: observed.induct) (simp_all add: without_reads_def)

lemma feed_observed: "feed i (observed effs) ms = feed i effs ms"
  by (induction effs arbitrary: ms rule: observed.induct) simp_all

lemma feed_fragments_error:
  "i < length ms \<Longrightarrow>
   feed i (map Next vs @ [Error err]) ms = ms[i := (ms ! i)\<lparr>msg_text := Text (warning_sign @ message err)\<rparr>]"
  by (simp add: feed_append feed_fragments on_error_def)

text \<open>
  C6. Let the text before a line \<open>l\<close> be complete lines that the inner loop gets through
  (\<open>drain\<close> ends with nothing left over), and let \<open>l\<close> parse to a record whose \<open>done\<close> is
  truthy. Then, however the text is cut into chunks, whatever follows \<open>l\<close> in the same
  chunk or in later ones, and however the stream ends: the run ends with the fragment of
  \<open>l\<close> followed at once by \<open>complete\<close>. Before them, reads apart, come the request, the
  effects of the earlier lines and the parse of \<open>l\<close>; after them comes nothing: no read, no
  parse, no call on the observer.
\<close>

theorem done_record_stops:
  assumes "drain E pre = (effs, More [])"
    and "concat vs = pre @ l @ NL # post"
    and "NL \<notin> set l" and "trim l \<noteq> []"
    and "JSON_parse E (trim l) = Inr chunk"
    and "property E chunk (js ''response'') = Inr fragment"
    and "property E chunk (js ''done'') = Inr d" and "truthy d"
  shows "\<exists>T. streamGenerate E p m (Body vs fin) = T @ [Next fragment, Complete] \<and>
             without_reads T = Fetch (generate_request p m) # effs @ [Parse (trim l)]"
proof -
  have "drain E (l @ NL # post) = ([Parse (trim l), Next fragment], Finished)"
    using assms(4-8) by (simp add: drain_line [OF assms(3)])
  with drain_append [of E pre "l @ NL # post"] assms(1,2)
  have "drain E (concat vs) = (effs @ [Parse (trim l), Next fragment], Finished)"
    by simp
  from stream_stop [OF this, of Complete "SyntaxError []" p m fin] show ?thesis
    by (simp add: butlast_append)
qed

text \<open>
  C6, for the joke scenario: the record with \<open>done: true\<close> is followed, in its own chunk
  and in a later one, by text that is never parsed, and the connection then drops. The run
  ends with the last fragment and \<open>complete\<close>, after two reads.
\<close>

theorem done_record_stops_witness:
  "drain joke_engine (joke_lines ! 0 @ NL # joke_lines ! 1 @ [NL]) =
     ([Parse (joke_lines ! 0), Next (JStr (js ''Why'')),
       Parse (joke_lines ! 1), Next (JStr (js '' did...''))], More []) \<and>
   NL \<notin> set (joke_lines ! 2) \<and> trim (joke_lines ! 2) \<noteq> [] \<and>
   truthy (JBool True) \<and>
   streamGenerate joke_engine (js ''Tell me a joke.'') (js ''gemma:2b'')
     (Body [joke_lines ! 0 @ [NL], joke_lines ! 1 @ NL # joke_lines ! 2 @ NL # js ''not json'',
            NL # joke_lines ! 0 @ [NL]]
           (Dropped (TypeError (js ''network error'')))) =
     [Fetch (generate_request (js ''Tell me a joke.'') (js ''gemma:2b'')),
      Read, Parse (joke_lines ! 0), Next (JStr (js ''Why'')),
      Read, Parse (joke_lines ! 1), Next (JStr (js '' did...'')),
      Parse (joke_lines ! 2)] @ [Next (JStr (js '' yet.'')), Complete]"
proof -
  let ?pre = "joke_lines ! 0 @ NL # joke_lines ! 1 @ [NL]"
  let ?l = "joke_lines ! 2"
  let ?post = "js ''not json'' @ NL # joke_lines ! 0 @ [NL]"
  let ?vs = "[joke_lines ! 0 @ [NL], joke_lines ! 1 @ NL # joke_lines ! 2 @ NL # js ''not json'',
            NL # joke_lines ! 0 @ [NL]]"
  let ?chunk = "JObj [(js ''response'', JStr (js '' yet.'')), (js ''done'', JBool True)]"
  have h1: "drain joke_engine ?pre =
     ([Parse (joke_lines ! 0), Next (JStr (js ''Why'')),
       Parse (joke_lines ! 1), Next (JStr (js '' did...''))], More [])"
    by code_simp
  have h2: "concat ?vs = ?pre @ ?l @ NL # ?post"
    by simp
  have h3: "NL \<notin> set ?l" by code_simp
  have h4: "trim ?l \<noteq> []" by code_simp
  have h5: "JSON_parse joke_engine (trim ?l) = Inr ?chunk" by code_simp
  have h6: "property joke_engine ?chunk (js ''response'') = Inr (JStr (js '' yet.''))" by code_simp
  have h7: "property joke_engine ?chunk (js ''done'') = Inr (JBool True)" by code_simp
  have h8: "truthy (JBool True)" by simp
  have run: "streamGenerate joke_engine (js ''Tell me a joke.'') (js ''gemma:2b'')
     (Body ?vs (Dropped (TypeError (js ''network error'')))) =
     [Fetch (generate_request (js ''Tell me a joke.'') (js ''gemma:2b'')),
      Read, Parse (joke_lines ! 0), Next (JStr (js ''Why'')),
      Read, Parse (joke_lines ! 1), Next (JStr (js '' did...'')),
      Parse (joke_lines ! 2)] @ [Next (JStr (js '' yet.'')), Complete]"
    by code_simp
  from done_record_stops [OF h1 h2 h3 h4 h5 h6 h7 h8, of "js ''Tell me a joke.''" "js ''gemma:2b''"
      "Dropped (TypeError (js ''network error''))"] h1 h3 h4 h8 run
  show ?thesis by simp
qed

text \<open>
  C5, as stated, fails in what it says of the log: after the record with the fragment
  \<open>Why\<close> comes the line \<open>not json\<close>. The fragment is emitted, but when the error has been
  handled the bot message is the warning sign and the error's message; \<open>Why\<close> is gone.
\<close>

theorem parse_failure_stops_counterexample:
  "fragments (streamGenerate joke_engine (js ''Tell me a joke.'') (js ''gemma:2b'')
               (Body [joke_lines ! 0 @ NL # js ''not json'' @ [NL]] Closed)) =
     [JStr (js ''Why'')] \<and>
   feed 1 (streamGenerate joke_engine (js ''Tell me a joke.'') (js ''gemma:2b'')
             (Body [joke_lines ! 0 @ NL # js ''not json'' @ [NL]] Closed))
          (messages (sendMessage (js ''Tell me a joke.'') empty_chat)) =
     [\<lparr>msg_from = User, msg_text = Text (js ''Tell me a joke.''), msg_loading = None\<rparr>,
      \<lparr>msg_from = Bot, msg_text = Text (warning_sign @ js ''Unexpected token''), msg_loading = None\<rparr>] \<and>
   \<not> prefix (js ''Why'') (warning_sign @ js ''Unexpected token'')"
  by code_simp

text \<open>
  C5, amended. Let the text before a line \<open>l\<close> be complete lines that the inner loop gets
  through, and let \<open>JSON.parse\<close> throw on \<open>l\<close>. Then, whatever the chunks and whatever follows
  \<open>l\<close>, the run ends with the parse of \<open>l\<close> followed at once by \<open>error\<close> with the exception
  thrown, and nothing after it is parsed, emitted or read. The observer sees the fragments
  of the earlier lines, in order, and then that one error. In the log the fragments are
  appended as they come, and the \<open>error\<close> handler then sets the bot message's text to the
  warning sign and the error's message, in place of them.
\<close>

theorem parse_failure_stops:
  assumes "drain E pre = (effs, More [])"
    and "concat vs = pre @ l @ NL # post"
    and "NL \<notin> set l" and "trim l \<noteq> []"
    and "JSON_parse E (trim l) = Inl err"
  shows "(\<exists>T. streamGenerate E p m (Body vs fin) = T @ [Parse (trim l), Error err] \<and>
              without_reads T = Fetch (generate_request p m) # effs) \<and>
         observed (streamGenerate E p m (Body vs fin)) = map Next (fragments effs) @ [Error err] \<and>
         (botIndex < length ms \<longrightarrow>
            feed botIndex (streamGenerate E p m (Body vs fin)) ms =
              ms[botIndex := (ms ! botIndex)\<lparr>msg_text := Text (warning_sign @ message err)\<rparr>])"
proof -
  have "drain E (l @ NL # post) = ([Parse (trim l)], Threw err)"
    using assms(4,5) by (simp add: drain_line [OF assms(3)])
  with drain_append [of E pre "l @ NL # post"] assms(1,2)
  have "drain E (concat vs) = (effs @ [Parse (trim l)], Threw err)"
    by simp
  from stream_stop [OF this, of "Error err" err p m fin]
  obtain T where T: "streamGenerate E p m (Body vs fin) = T @ [Parse (trim l), Error err]"
    "without_reads T = Fetch (generate_request p m) # effs"
    by auto
  have "observed T = observed (without_reads T)"
    by (simp add: observed_without_reads)
  with T(2) assms(1) have "observed T = map Next (fragments effs)"
    by (simp add: observed_drain)
  with T(1) have obs: "observed (streamGenerate E p m (Body vs fin)) = map Next (fragments effs) @ [Error err]"
    by (simp add: observed_append)
  have "feed botIndex (streamGenerate E p m (Body vs fin)) ms =
        feed botIndex (map Next (fragments effs) @ [Error err]) ms"
    using feed_observed [of botIndex "streamGenerate E p m (Body vs fin)" ms] obs by simp
  with T obs show ?thesis
    by (auto simp add: feed_fragments_error)
qed

text \<open>
  C5, amended, for the record \<open>Why\<close> followed by the line \<open>not json\<close>, cut in two by a chunk
  boundary, and by a record that is never parsed.
\<close>

theorem parse_failure_stops_witness:
  "drain joke_engine (joke_lines ! 0 @ [NL]) =
     ([Parse (joke_lines ! 0), Next (JStr (js ''Why''))], More []) \<and>
   NL \<notin> set (js ''not json'') \<and> trim (js ''not json'') \<noteq> [] \<and>
   JSON_parse joke_engine (trim (js ''not json'')) = Inl (SyntaxError (js ''Unexpected token'')) \<and>
   (1::nat) < length (messages (sendMessage (js ''Tell me a joke.'') empty_chat)) \<and>
   streamGenerate joke_engine (js ''Tell me a joke.'') (js ''gemma:2b'')
     (Body [joke_lines ! 0 @ NL # js ''not'', js '' json'' @ NL # joke_lines ! 1 @ [NL]] Closed) =
     [Fetch (generate_request (js ''Tell me a joke.'') (js ''gemma:2b'')),
      Read, Parse (joke_lines ! 0), Next (JStr (js ''Why'')), Read] @
     [Parse (js ''not json''), Error (SyntaxError (js ''Unexpected token''))] \<and>
   observed (streamGenerate joke_engine (js ''Tell me a joke.'') (js ''gemma:2b'')
     (Body [joke_lines ! 0 @ NL # js ''not'', js '' json'' @ NL # joke_lines ! 1 @ [NL]] Closed)) =
     [Next (JStr (js ''Why'')), Error (SyntaxError (js ''Unexpected token''))] \<and>
   feed 1 (streamGenerate joke_engine (js ''Tell me a joke.'') (js ''gemma:2b'')
     (Body [joke_lines ! 0 @ NL # js ''not'', js '' json'' @ NL # joke_lines ! 1 @ [NL]] Closed))
     (messages (sendMessage (js ''Tell me a joke.'') empty_chat)) =
     [\<lparr>msg_from = User, msg_text = Text (js ''Tell me a joke.''), msg_loading = None\<rparr>,
      \<lparr>msg_from = Bot, msg_text = Text (warning_sign @ js ''Unexpected token''), msg_loading = None\<rparr>]"
proof -
  let ?pre = "joke_lines ! 0 @ [NL]"
  let ?l = "js ''not json''"
  let ?post = "joke_lines ! 1 @ [NL]"
  let ?vs = "[joke_lines ! 0 @ NL # js ''not'', js '' json'' @ NL # joke_lines ! 1 @ [NL]]"
  let ?err = "SyntaxError (js ''Unexpected token'')"
  let ?ms = "messages (sendMessage (js ''Tell me a joke.'') empty_chat)"
  have h1: "drain joke_engine ?pre = ([Parse (joke_lines ! 0), Next (JStr (js ''Why''))], More [])"
    by code_simp
  have h2: "concat ?vs = ?pre @ ?l @ NL # ?post"
    by (simp add: js_def)
  have h3: "NL \<notin> set ?l" by code_simp
  have h4: "trim ?l \<noteq> []" by code_simp
  have h5: "JSON_parse joke_engine (trim ?l) = Inl ?err" by code_simp
  have h6: "(1::nat) < length ?ms" by code_simp
  have t: "trim ?l = ?l" by code_simp
  have ms: "?ms = [\<lparr>msg_from = User, msg_text = Text (js ''Tell me a joke.''), msg_loading = None\<rparr>,
      \<lparr>msg_from = Bot, msg_text = Text [], msg_loading = None\<rparr>]"
    by code_simp
  have run: "streamGenerate joke_engine (js ''Tell me a joke.'') (js ''gemma:2b'') (Body ?vs Closed) =
     [Fetch (generate_request (js ''Tell me a joke.'') (js ''gemma:2b'')),
      Read, Parse (joke_lines ! 0), Next (JStr (js ''Why'')), Read] @
     [Parse (js ''not json''), Error ?err]"
    by code_simp
  from parse_failure_stops [OF h1 h2 h3 h4 h5, of "js ''Tell me a joke.''" "js ''gemma:2b''" Closed 1 ?ms]
  have "observed (streamGenerate joke_engine (js ''Tell me a joke.'') (js ''gemma:2b'') (Body ?vs Closed)) =
          [Next (JStr (js ''Why'')), Error ?err] \<and>
        feed 1 (streamGenerate joke_engine (js ''Tell me a joke.'') (js ''gemma:2b'') (Body ?vs Closed)) ?ms =
          ?ms[1 := (?ms ! 1)\<lparr>msg_text := Text (warning_sign @ message ?err)\<rparr>]"
    using h6 by simp
  with h1 h3 h4 h5 h6 run show ?thesis
    by (simp add: ms)
qed

end
